theory Spec2Isabelle
  imports Complex_Main
begin

section \<open>The phase system of reactingEulerFoam (phaseSystem.C)\<close>

text \<open>
  A shallow embedding of \<^verbatim>\<open>Foam::phaseSystem\<close>. Where the C++ reads a list out of range,
  looks a name up that is not there or divides by zero, the embedding returns a value of
  \<open>error\<close>. A name that is not there is a fatal error of the C++; the reads out of range
  and the division have no check in the C++, and the error value marks that what it does
  there is not defined.
\<close>

subsection \<open>Fields\<close>

text \<open>
  Modelled from the spec: the fields and their arithmetic, of the numeric substrate (not
  among the sources). A scalar is a real number; a field is the list of its values, one
  per location of the mesh; sums, products and quotients of fields are taken location by
  location.
\<close>

type_synonym word = string
type_synonym label = nat
type_synonym scalar = real
type_synonym vector = "real \<times> real \<times> real"
type_synonym volScalarField = "scalar list"
type_synonym volVectorField = "vector list"

datatype error =
    IndexOutOfRange
  | DivideByZero
  | UnknownPhase word
  | KeyNotFound

text \<open>\<^verbatim>\<open>volScalarField::New(name, mesh, dimensionedScalar(dims, v))\<close>: the uniform field.\<close>

definition uniformField :: "nat \<Rightarrow> scalar \<Rightarrow> volScalarField" where
  "uniformField n v = replicate n v"

definition fadd :: "volScalarField \<Rightarrow> volScalarField \<Rightarrow> volScalarField" where
  "fadd a b = map2 (+) a b"

definition fmul :: "volScalarField \<Rightarrow> volScalarField \<Rightarrow> volScalarField" where
  "fmul a b = map2 (*) a b"

definition fdiv :: "volScalarField \<Rightarrow> volScalarField \<Rightarrow> error + volScalarField" where
  "fdiv a b = (if 0 \<in> set b then Inl DivideByZero else Inr (map2 (/) a b))"

definition vadd :: "vector \<Rightarrow> vector \<Rightarrow> vector" where
  "vadd u v = (case u of (ux, uy, uz) \<Rightarrow> case v of (vx, vy, vz) \<Rightarrow> (ux + vx, uy + vy, uz + vz))"

definition smul :: "scalar \<Rightarrow> vector \<Rightarrow> vector" where
  "smul a v = (case v of (vx, vy, vz) \<Rightarrow> (a * vx, a * vy, a * vz))"

definition sdiv :: "vector \<Rightarrow> scalar \<Rightarrow> vector" where
  "sdiv v a = (case v of (vx, vy, vz) \<Rightarrow> (vx / a, vy / a, vz / a))"

definition fvadd :: "volVectorField \<Rightarrow> volVectorField \<Rightarrow> volVectorField" where
  "fvadd a b = map2 vadd a b"

definition fvmul :: "volScalarField \<Rightarrow> volVectorField \<Rightarrow> volVectorField" where
  "fvmul a b = map2 smul a b"

definition fvdiv :: "volVectorField \<Rightarrow> volScalarField \<Rightarrow> error + volVectorField" where
  "fvdiv a b = (if 0 \<in> set b then Inl DivideByZero else Inr (map2 sdiv a b))"

subsection \<open>Phases\<close>

text \<open>
  Modelled from the spec: the phase (\<^verbatim>\<open>phaseModel.H\<close> is not among the sources), with what
  \<^verbatim>\<open>phaseSystem.C\<close> reads of it: its name and index, the fraction field (the phase model is
  its own \<^verbatim>\<open>volScalarField\<close>), the density and pressure of its thermo, the thermo's
  \<^verbatim>\<open>dpdt\<close> switch, the velocity and the classification flags.
\<close>

record rhoThermo =
  thermo_rho :: volScalarField
  thermo_rhoName :: word
  thermo_p :: volScalarField
  thermo_dpdt :: bool

record phaseModel =
  phase_name :: word
  phase_index :: label
  phase_alpha :: volScalarField
  phase_thermo :: rhoThermo
  phase_U :: volVectorField
  phase_stationary :: bool
  phase_isothermal :: bool
  phase_pure :: bool
  phase_incompressible :: bool

definition phase_rho :: "phaseModel \<Rightarrow> volScalarField" where
  "phase_rho p = thermo_rho (phase_thermo p)"

subsection \<open>Pair keys and the hash tables keyed by them\<close>

record phasePairKey =
  first :: word
  second :: word
  ordered :: bool

definition mkKey :: "word \<Rightarrow> word \<Rightarrow> bool \<Rightarrow> phasePairKey" where
  "mkKey a b ord = \<lparr>first = a, second = b, ordered = ord\<rparr>"

text \<open>
  Modelled from the spec: the equality of \<^verbatim>\<open>phasePairKey\<close> (\<^verbatim>\<open>phasePairKey.H\<close> is not among
  the sources). Two keys are equal when they have the same ordering flag and the same two
  names, in the same order or, for unordered keys, in either order.
\<close>

definition keyEq :: "phasePairKey \<Rightarrow> phasePairKey \<Rightarrow> bool" where
  "keyEq a b =
     (ordered a = ordered b \<and>
      ((first a = first b \<and> second a = second b) \<or>
       (\<not> ordered a \<and> first a = second b \<and> second a = first b)))"

text \<open>
  Modelled from the spec: \<^verbatim>\<open>HashTable<T, phasePairKey, phasePairKey::hash>\<close> (the container
  is not among the sources), a mapping from pair keys to entries in which a key is looked
  up by the key equality. \<^verbatim>\<open>found\<close> tells whether a key has an entry, \<^verbatim>\<open>operator[]\<close> is
  fatal on a key without one, \<^verbatim>\<open>insert\<close> adds an entry and leaves an existing one alone.
\<close>

fun HashTable_lookup :: "(phasePairKey \<times> 'v) list \<Rightarrow> phasePairKey \<Rightarrow> 'v option" where
  "HashTable_lookup [] k = None"
| "HashTable_lookup ((k', v) # t) k = (if keyEq k' k then Some v else HashTable_lookup t k)"

definition HashTable_found :: "(phasePairKey \<times> 'v) list \<Rightarrow> phasePairKey \<Rightarrow> bool" where
  "HashTable_found t k = (HashTable_lookup t k \<noteq> None)"

definition HashTable_index :: "(phasePairKey \<times> 'v) list \<Rightarrow> phasePairKey \<Rightarrow> error + 'v" where
  "HashTable_index t k = (case HashTable_lookup t k of None \<Rightarrow> Inl KeyNotFound | Some v \<Rightarrow> Inr v)"

definition HashTable_insert ::
  "(phasePairKey \<times> 'v) list \<Rightarrow> phasePairKey \<Rightarrow> 'v \<Rightarrow> (phasePairKey \<times> 'v) list" where
  "HashTable_insert t k v = (if HashTable_found t k then t else t @ [(k, v)])"

subsection \<open>Pairs and the phase system\<close>

text \<open>
  A \<^verbatim>\<open>phasePair\<close> refers to its two phases (here by name) and knows whether it is an
  \<^verbatim>\<open>orderedPhasePair\<close>. The pairs are allocated with \<^verbatim>\<open>new\<close>: \<open>pairHeap\<close> is the list of the
  pair objects allocated so far, the address of an object is its position there, and the
  table \<open>phasePairs\<close> maps a key to the address its \<^verbatim>\<open>autoPtr\<close> owns.
\<close>

record phasePair =
  pair_phase1 :: word
  pair_phase2 :: word
  pair_ordered :: bool

type_synonym surfaceTensionModel = "phaseModel list \<Rightarrow> volScalarField"
type_synonym aspectRatioModel = "phaseModel list \<Rightarrow> volScalarField"

text \<open>The members keep their names, without the trailing underscore.\<close>

record phaseSystem =
  mesh_nCells :: nat
  phaseModels :: "phaseModel list"
  phasePairs :: "(phasePairKey \<times> nat) list"
  pairHeap :: "phasePair list"
  dpdt :: volScalarField
  surfaceTensionModels :: "(phasePairKey \<times> surfaceTensionModel) list"
  aspectRatioModels :: "(phasePairKey \<times> aspectRatioModel) list"

text \<open>
  Modelled from the spec: \<^verbatim>\<open>phaseModels_[name]\<close>, the lookup of a phase by its name in the
  phase list (the container is not among the sources); it fails with \<open>UnknownPhase\<close> when
  the name is not that of a phase of the system.
\<close>

definition lookupPhase :: "phaseModel list \<Rightarrow> word \<Rightarrow> error + phaseModel" where
  "lookupPhase ps n =
     (case find (\<lambda>p. phase_name p = n) ps of None \<Rightarrow> Inl (UnknownPhase n) | Some p \<Rightarrow> Inr p)"

text \<open>
  The constructor's groupings (lines 161 to 202): a first pass counts the phases of each
  class and sizes the list of pointers, a second pass sets the pointers in phase order.
\<close>

fun countPhases :: "(phaseModel \<Rightarrow> bool) \<Rightarrow> phaseModel list \<Rightarrow> nat \<Rightarrow> nat" where
  "countPhases P [] n = n"
| "countPhases P (p # ps) n = countPhases P ps (n + (if P p then 1 else 0))"

fun setPhases ::
  "(phaseModel \<Rightarrow> bool) \<Rightarrow> phaseModel list \<Rightarrow> nat \<Rightarrow> phaseModel option list \<Rightarrow> phaseModel option list" where
  "setPhases P [] i l = l"
| "setPhases P (p # ps) i l =
     (if P p then setPhases P ps (Suc i) (l[i := Some p]) else setPhases P ps i l)"

definition groupPhases :: "(phaseModel \<Rightarrow> bool) \<Rightarrow> phaseModel list \<Rightarrow> phaseModel option list" where
  "groupPhases P ps = setPhases P ps 0 (replicate (countPhases P ps 0) None)"

text \<open>The four views \<^verbatim>\<open>movingPhaseModels_\<close>, \<^verbatim>\<open>stationaryPhaseModels_\<close>, \<^verbatim>\<open>anisothermalPhaseModels_\<close> and
  \<^verbatim>\<open>multiComponentPhaseModels_\<close>, as the constructor leaves them (lemma \<open>groupPhases_filter\<close>).\<close>

definition movingPhaseModels :: "phaseSystem \<Rightarrow> phaseModel list" where
  "movingPhaseModels s = filter (\<lambda>p. \<not> phase_stationary p) (phaseModels s)"

definition stationaryPhaseModels :: "phaseSystem \<Rightarrow> phaseModel list" where
  "stationaryPhaseModels s = filter phase_stationary (phaseModels s)"

definition anisothermalPhaseModels :: "phaseSystem \<Rightarrow> phaseModel list" where
  "anisothermalPhaseModels s = filter (\<lambda>p. \<not> phase_isothermal p) (phaseModels s)"

definition multiComponentPhaseModels :: "phaseSystem \<Rightarrow> phaseModel list" where
  "multiComponentPhaseModels s = filter (\<lambda>p. \<not> phase_pure p) (phaseModels s)"

subsection \<open>generatePairs\<close>

text \<open>
  One turn of the loop of \<^verbatim>\<open>generatePairs\<close>: nothing for a key that is found; otherwise the
  two phases are looked up by name, a pair object is allocated (an \<^verbatim>\<open>orderedPhasePair\<close>
  for an ordered key) and inserted under the key.
\<close>

definition newPair :: "phaseSystem \<Rightarrow> phasePairKey \<Rightarrow> bool \<Rightarrow> error + phaseSystem" where
  "newPair s key ord =
     (case lookupPhase (phaseModels s) (first key) of
        Inl e \<Rightarrow> Inl e
      | Inr p1 \<Rightarrow>
         (case lookupPhase (phaseModels s) (second key) of
            Inl e \<Rightarrow> Inl e
          | Inr p2 \<Rightarrow>
             Inr (s\<lparr>pairHeap := pairHeap s @
                       [\<lparr>pair_phase1 = phase_name p1, pair_phase2 = phase_name p2,
                         pair_ordered = ord\<rparr>],
                    phasePairs := HashTable_insert (phasePairs s) key (length (pairHeap s))\<rparr>)))"

definition generatePair :: "phaseSystem \<Rightarrow> phasePairKey \<Rightarrow> error + phaseSystem" where
  "generatePair s key =
     (if HashTable_found (phasePairs s) key then Inr s
      else if ordered key then newPair s key True
      else newPair s key False)"

fun generatePairs :: "phaseSystem \<Rightarrow> (phasePairKey \<times> 'd) list \<Rightarrow> error + phaseSystem" where
  "generatePairs s [] = Inr s"
| "generatePairs s ((key, d) # modelDicts) =
     (case generatePair s key of
        Inl e \<Rightarrow> Inl e
      | Inr s' \<Rightarrow> generatePairs s' modelDicts)"

text \<open>Any number of calls of \<^verbatim>\<open>generatePairs\<close>, one per sub-model table.\<close>

fun generatePairsSeq :: "phaseSystem \<Rightarrow> (phasePairKey \<times> 'd) list list \<Rightarrow> error + phaseSystem" where
  "generatePairsSeq s [] = Inr s"
| "generatePairsSeq s (modelDicts # rest) =
     (case generatePairs s modelDicts of
        Inl e \<Rightarrow> Inl e
      | Inr s' \<Rightarrow> generatePairsSeq s' rest)"

subsection \<open>Mixture density and velocity\<close>

text \<open>
  The loops of \<^verbatim>\<open>rho()\<close> and \<^verbatim>\<open>U()\<close> start from the entry at index 0 of the moving phases
  and add the entries from index 1 on.
\<close>

definition sumAlphaRho :: "phaseModel \<Rightarrow> phaseModel list \<Rightarrow> volScalarField" where
  "sumAlphaRho p0 ps =
     foldl (\<lambda>acc p. fadd acc (fmul (phase_alpha p) (phase_rho p)))
       (fmul (phase_alpha p0) (phase_rho p0)) ps"

definition sumAlphaU :: "phaseModel \<Rightarrow> phaseModel list \<Rightarrow> volVectorField" where
  "sumAlphaU p0 ps =
     foldl (\<lambda>acc p. fvadd acc (fvmul (phase_alpha p) (phase_U p)))
       (fvmul (phase_alpha p0) (phase_U p0)) ps"

definition sumAlphaMoving :: "phaseModel \<Rightarrow> phaseModel list \<Rightarrow> volScalarField" where
  "sumAlphaMoving p0 ps = foldl (\<lambda>acc p. fadd acc (phase_alpha p)) (phase_alpha p0) ps"

definition rho :: "phaseSystem \<Rightarrow> error + volScalarField" where
  "rho s =
     (case movingPhaseModels s of
        [] \<Rightarrow> Inl IndexOutOfRange
      | p0 # ps \<Rightarrow>
          if stationaryPhaseModels s = [] then Inr (sumAlphaRho p0 ps)
          else fdiv (sumAlphaRho p0 ps) (sumAlphaMoving p0 ps))"

definition U :: "phaseSystem \<Rightarrow> error + volVectorField" where
  "U s =
     (case movingPhaseModels s of
        [] \<Rightarrow> Inl IndexOutOfRange
      | p0 # ps \<Rightarrow>
          if stationaryPhaseModels s = [] then Inr (sumAlphaU p0 ps)
          else fvdiv (sumAlphaU p0 ps) (sumAlphaMoving p0 ps))"

subsection \<open>Aspect ratio and surface tension of a pair\<close>

text \<open>
  A model of the table is applied to the phases (\<^verbatim>\<open>aspectRatioModels_[key]->E()\<close>); without
  a model the uniform field 1, respectively 0, over the mesh is returned.
\<close>

definition E :: "phaseSystem \<Rightarrow> phasePairKey \<Rightarrow> error + volScalarField" where
  "E s key =
     (if HashTable_found (aspectRatioModels s) key
      then (case HashTable_index (aspectRatioModels s) key of
              Inl e \<Rightarrow> Inl e
            | Inr m \<Rightarrow> Inr (m (phaseModels s)))
      else Inr (uniformField (mesh_nCells s) 1))"

definition sigma :: "phaseSystem \<Rightarrow> phasePairKey \<Rightarrow> error + volScalarField" where
  "sigma s key =
     (if HashTable_found (surfaceTensionModels s) key
      then (case HashTable_index (surfaceTensionModels s) key of
              Inl e \<Rightarrow> Inl e
            | Inr m \<Rightarrow> Inr (m (phaseModels s)))
      else Inr (uniformField (mesh_nCells s) 0))"

subsection \<open>Mass transfer\<close>

text \<open>
  \<^verbatim>\<open>dmdtf\<close> builds the pair of the two phases the key names, for the name of the field,
  and returns the uniform field 0. \<^verbatim>\<open>dmdts\<close> returns a \<^verbatim>\<open>PtrList\<close> with one slot per phase
  and no slot set; a slot that is not set is \<open>None\<close>.
\<close>

definition dmdtf :: "phaseSystem \<Rightarrow> phasePairKey \<Rightarrow> error + volScalarField" where
  "dmdtf s key =
     (case lookupPhase (phaseModels s) (first key) of
        Inl e \<Rightarrow> Inl e
      | Inr p1 \<Rightarrow>
         (case lookupPhase (phaseModels s) (second key) of
            Inl e \<Rightarrow> Inl e
          | Inr p2 \<Rightarrow> Inr (uniformField (mesh_nCells s) 0)))"

definition dmdts :: "phaseSystem \<Rightarrow> volScalarField option list" where
  "dmdts s = replicate (length (phaseModels s)) None"

subsection \<open>incompressible\<close>

fun incompressible_loop :: "phaseModel list \<Rightarrow> bool" where
  "incompressible_loop [] = True"
| "incompressible_loop (p # ps) =
     (if \<not> phase_incompressible p then False else incompressible_loop ps)"

definition incompressible :: "phaseSystem \<Rightarrow> bool" where
  "incompressible s = incompressible_loop (phaseModels s)"

subsection \<open>The calls of the phases' hooks\<close>

text \<open>
  The hooks of a phase are virtual functions of \<^verbatim>\<open>phaseModel\<close>; they are parameters here,
  functions that change the phase they are called on. What the phase system calls is
  recorded, in the order of the calls.
\<close>

datatype event =
    CorrectKinematics word
  | FvcDdt volScalarField
  | CorrectContinuityError word volScalarField

subsection \<open>correctContinuityError\<close>

text \<open>
  \<^verbatim>\<open>fvOptions()\<close>: whether a source applies to a field of a given name, and the source
  \<^verbatim>\<open>fvOptions()(alpha, rho) & rho\<close> it gives.
\<close>

record fvOptions =
  appliesToField :: "word \<Rightarrow> bool"
  optionSource :: "volScalarField \<Rightarrow> volScalarField \<Rightarrow> volScalarField"

text \<open>
  Modelled from the spec: \<^verbatim>\<open>PtrList::set(i)\<close>, whether slot \<open>i\<close> of an index-addressed list is
  set (the container is not among the sources); the slot is read with no check of the
  range.
\<close>

definition PtrList_set :: "'a option list \<Rightarrow> label \<Rightarrow> error + bool" where
  "PtrList_set l i = (if i < length l then Inr (l ! i \<noteq> None) else Inl IndexOutOfRange)"

text \<open>The source field of one moving phase, given the list that \<^verbatim>\<open>this->dmdts()\<close> returned.\<close>

definition massSource ::
  "fvOptions \<Rightarrow> volScalarField option list \<Rightarrow> nat \<Rightarrow> phaseModel \<Rightarrow> error + volScalarField" where
  "massSource opts dmdtsList n phase =
     (let alpha = phase_alpha phase;
          rhoField = thermo_rho (phase_thermo phase);
          source0 = uniformField n 0;
          source1 = (if appliesToField opts (thermo_rhoName (phase_thermo phase))
                     then fadd source0 (optionSource opts alpha rhoField) else source0)
      in case PtrList_set dmdtsList (phase_index phase) of
           Inl e \<Rightarrow> Inl e
         | Inr isSet \<Rightarrow>
             if isSet then
               (case dmdtsList ! phase_index phase of
                  Some d \<Rightarrow> Inr (fadd source1 d)
                | None \<Rightarrow> Inr source1)
             else Inr source1)"

fun correctContinuityError_loop ::
  "(volScalarField \<Rightarrow> phaseModel \<Rightarrow> phaseModel) \<Rightarrow> fvOptions \<Rightarrow> volScalarField option list \<Rightarrow>
   nat \<Rightarrow> phaseModel list \<Rightarrow> error + (phaseModel list \<times> event list)" where
  "correctContinuityError_loop hook opts dmdtsList n [] = Inr ([], [])"
| "correctContinuityError_loop hook opts dmdtsList n (phase # rest) =
     (case massSource opts dmdtsList n phase of
        Inl e \<Rightarrow> Inl e
      | Inr source \<Rightarrow>
         (case correctContinuityError_loop hook opts dmdtsList n rest of
            Inl e \<Rightarrow> Inl e
          | Inr (rest', evs) \<Rightarrow>
              Inr (hook source phase # rest',
                   CorrectContinuityError (phase_name phase) source # evs)))"

text \<open>
  The moving phases are pointers into the phase list: the phases the loop has changed
  are the entries of the phase list that are not stationary, in the same order.
\<close>

fun writeMoving :: "phaseModel list \<Rightarrow> phaseModel list \<Rightarrow> phaseModel list" where
  "writeMoving [] ms = []"
| "writeMoving (p # ps) ms =
     (if phase_stationary p then p # writeMoving ps ms
      else (case ms of [] \<Rightarrow> p # writeMoving ps [] | m # ms' \<Rightarrow> m # writeMoving ps ms'))"

definition correctContinuityError ::
  "(volScalarField \<Rightarrow> phaseModel \<Rightarrow> phaseModel) \<Rightarrow> fvOptions \<Rightarrow> volScalarField option list \<Rightarrow>
   phaseSystem \<Rightarrow> error + (phaseSystem \<times> event list)" where
  "correctContinuityError hook opts dmdtsList s =
     (case correctContinuityError_loop hook opts dmdtsList (mesh_nCells s) (movingPhaseModels s) of
        Inl e \<Rightarrow> Inl e
      | Inr (ms, evs) \<Rightarrow> Inr (s\<lparr>phaseModels := writeMoving (phaseModels s) ms\<rparr>, evs))"

subsection \<open>correctKinematics\<close>

fun correctKinematics_loop ::
  "(phaseModel \<Rightarrow> phaseModel) \<Rightarrow> phaseModel list \<Rightarrow> bool \<Rightarrow> phaseModel list \<times> bool \<times> event list" where
  "correctKinematics_loop hook [] updateDpdt = ([], updateDpdt, [])"
| "correctKinematics_loop hook (phase # rest) updateDpdt =
     (let phase' = hook phase;
          updateDpdt' = (updateDpdt \<or> thermo_dpdt (phase_thermo phase'))
      in case correctKinematics_loop hook rest updateDpdt' of
           (rest', u, evs) \<Rightarrow> (phase' # rest', u, CorrectKinematics (phase_name phase) # evs))"

text \<open>\<open>ddt\<close> is \<^verbatim>\<open>fvc::ddt\<close>, the time derivative of the discretisation.\<close>

definition correctKinematics ::
  "(phaseModel \<Rightarrow> phaseModel) \<Rightarrow> (volScalarField \<Rightarrow> volScalarField) \<Rightarrow> phaseSystem \<Rightarrow>
   error + (phaseSystem \<times> event list)" where
  "correctKinematics hook ddt s =
     (case correctKinematics_loop hook (phaseModels s) False of
        (ps, updateDpdt, evs) \<Rightarrow>
          if updateDpdt then
            (case ps of
               [] \<Rightarrow> Inl IndexOutOfRange
             | p0 # _ \<Rightarrow>
                 Inr (s\<lparr>phaseModels := ps, dpdt := ddt (thermo_p (phase_thermo p0))\<rparr>,
                      evs @ [FvcDdt (thermo_p (phase_thermo p0))]))
          else Inr (s\<lparr>phaseModels := ps\<rparr>, evs))"

text \<open>Whether an event is a recomputation of the pressure time derivative.\<close>

fun isFvcDdt :: "event \<Rightarrow> bool" where
  "isFvcDdt (FvcDdt f) = True"
| "isFvcDdt _ = False"

subsection \<open>Fields on the mesh\<close>

text \<open>
  The fields of the phases all live on the mesh of the system: each has one value per
  location.
\<close>

definition fieldsOn :: "nat \<Rightarrow> phaseModel list \<Rightarrow> bool" where
  "fieldsOn n ps =
     list_all (\<lambda>p. length (phase_alpha p) = n \<and> length (phase_rho p) = n \<and> length (phase_U p) = n) ps"

subsection \<open>One pair per key\<close>

text \<open>
  The registry holds one pair per key: no two entries of \<open>phasePairs\<close> have equal keys, and
  the entries own the allocated pair objects one to one (the entry at position \<open>i\<close> owns
  the object at address \<open>i\<close>, and there is no other object).
\<close>

definition onePairPerKey :: "phaseSystem \<Rightarrow> bool" where
  "onePairPerKey s =
     ((\<forall>i<length (phasePairs s). \<forall>j<length (phasePairs s).
         keyEq (fst (phasePairs s ! i)) (fst (phasePairs s ! j)) \<longrightarrow> i = j) \<and>
      map snd (phasePairs s) = [0..<length (pairHeap s)])"

subsection \<open>Example systems\<close>

text \<open>Phases with uniform fields over a mesh of \<open>n\<close> locations, and systems of such phases.\<close>

definition examplePhase :: "word \<Rightarrow> label \<Rightarrow> nat \<Rightarrow> scalar \<Rightarrow> scalar \<Rightarrow> bool \<Rightarrow> phaseModel" where
  "examplePhase nm i n a r st =
     \<lparr>phase_name = nm, phase_index = i, phase_alpha = uniformField n a,
      phase_thermo = \<lparr>thermo_rho = uniformField n r, thermo_rhoName = ''thermo:rho.'' @ nm,
                      thermo_p = uniformField n 100000, thermo_dpdt = False\<rparr>,
      phase_U = replicate n (1, 0, 0), phase_stationary = st, phase_isothermal = True,
      phase_pure = True, phase_incompressible = True\<rparr>"

definition exampleSystem :: "nat \<Rightarrow> phaseModel list \<Rightarrow> phaseSystem" where
  "exampleSystem n ps =
     \<lparr>mesh_nCells = n, phaseModels = ps, phasePairs = [], pairHeap = [],
      dpdt = uniformField n 0, surfaceTensionModels = [], aspectRatioModels = []\<rparr>"

definition threePhases :: phaseSystem where
  "threePhases = exampleSystem 2
     [examplePhase ''water'' 0 2 0.5 1000 False,
      examplePhase ''oil'' 1 2 0.3 800 False,
      examplePhase ''air'' 2 2 0.2 1.2 False]"

definition withModels :: phaseSystem where
  "withModels = (threePhases
     \<lparr>surfaceTensionModels := [(mkKey ''air'' ''water'' False, \<lambda>ps. uniformField 2 0.07)],
      aspectRatioModels := [(mkKey ''air'' ''water'' True, \<lambda>ps. uniformField 2 1.5)]\<rparr>)"

definition twoMoving :: "nat \<Rightarrow> phaseSystem" where
  "twoMoving n = exampleSystem n
     [examplePhase ''water'' 0 n 0.3 1000 False,
      examplePhase ''air'' 1 n 0.7 1.2 False]"

definition movingAndStationary :: "nat \<Rightarrow> phaseSystem" where
  "movingAndStationary n = exampleSystem n
     [examplePhase ''water'' 0 n 0.6 1000 False,
      examplePhase ''solid'' 1 n 0.4 2500 True]"

definition onlyStationary :: phaseSystem where
  "onlyStationary = exampleSystem 2 [examplePhase ''solid'' 0 2 1 2500 True]"

definition vanishingMoving :: phaseSystem where
  "vanishingMoving = exampleSystem 2
     [(examplePhase ''water'' 0 2 0.6 1000 False)\<lparr>phase_alpha := [0.6, 0]\<rparr>,
      (examplePhase ''solid'' 1 2 0.4 2500 True)\<lparr>phase_alpha := [0.4, 1]\<rparr>]"

text \<open>A kinematics hook and a time derivative to run the examples with.\<close>

definition exampleKinematics :: "phaseModel \<Rightarrow> phaseModel" where
  "exampleKinematics p = p\<lparr>phase_U := map (smul 2) (phase_U p)\<rparr>"

definition exampleDdt :: "volScalarField \<Rightarrow> volScalarField" where
  "exampleDdt f = map (\<lambda>x. x - 99000) f"

definition requesting :: "phaseModel \<Rightarrow> phaseModel" where
  "requesting p = p\<lparr>phase_thermo := (phase_thermo p)\<lparr>thermo_dpdt := True\<rparr>\<rparr>"

definition isothermalRequesting :: phaseSystem where
  "isothermalRequesting = exampleSystem 2 [requesting (examplePhase ''water'' 0 2 1 1000 False)]"

definition twoRequesting :: phaseSystem where
  "twoRequesting = exampleSystem 2
     [requesting ((examplePhase ''water'' 0 2 0.3 1000 False)\<lparr>phase_isothermal := False\<rparr>),
      requesting ((examplePhase ''air'' 1 2 0.7 1.2 False)\<lparr>phase_isothermal := False\<rparr>)]"

text \<open>Options, a list of mass-transfer rates and a continuity hook to run the examples with.\<close>

definition exampleOptions :: fvOptions where
  "exampleOptions =
     \<lparr>appliesToField = (\<lambda>n. n = ''thermo:rho.water''),
      optionSource = (\<lambda>alpha rhoField. map (\<lambda>x. x / 1000) (fmul alpha rhoField))\<rparr>"

definition exampleContinuity :: "volScalarField \<Rightarrow> phaseModel \<Rightarrow> phaseModel" where
  "exampleContinuity source p =
     p\<lparr>phase_thermo := (phase_thermo p)\<lparr>thermo_rho := fadd (thermo_rho (phase_thermo p)) source\<rparr>\<rparr>"

text \<open>The entries of two sub-model tables, the second naming pairs of the first again.\<close>

definition firstDicts :: "(phasePairKey \<times> unit) list" where
  "firstDicts = [(mkKey ''air'' ''water'' False, ()), (mkKey ''water'' ''oil'' True, ())]"

definition secondDicts :: "(phasePairKey \<times> unit) list" where
  "secondDicts = [(mkKey ''water'' ''air'' False, ()), (mkKey ''oil'' ''water'' True, ()),
                  (mkKey ''water'' ''oil'' True, ())]"

definition registered :: phaseSystem where
  "registered = threePhases
     \<lparr>phasePairs := [(mkKey ''air'' ''water'' False, 0), (mkKey ''water'' ''oil'' True, 1),
                     (mkKey ''oil'' ''water'' True, 2)],
      pairHeap := [\<lparr>pair_phase1 = ''air'', pair_phase2 = ''water'', pair_ordered = False\<rparr>,
                   \<lparr>pair_phase1 = ''water'', pair_phase2 = ''oil'', pair_ordered = True\<rparr>,
                   \<lparr>pair_phase1 = ''oil'', pair_phase2 = ''water'', pair_ordered = True\<rparr>]\<rparr>"

section \<open>The groupings of the constructor\<close>

lemma countPhases_filter: "countPhases P ps n = n + length (filter P ps)"
  by (induction ps arbitrary: n) auto

lemma setPhases_filter:
  "i + length (filter P ps) \<le> length l \<Longrightarrow>
   setPhases P ps i l = take i l @ map Some (filter P ps) @ drop (i + length (filter P ps)) l"
proof (induction ps arbitrary: i l)
  case Nil
  then show ?case by simp
next
  case (Cons p ps)
  show ?case
  proof (cases "P p")
    case True
    with Cons.prems have i: "i < length l" and le: "Suc i + length (filter P ps) \<le> length (l[i := Some p])"
      by simp_all
    have "take (Suc i) (l[i := Some p]) = take i l @ [Some p]"
      using i by (simp add: upd_conv_take_nth_drop)
    moreover have "drop (Suc i + length (filter P ps)) (l[i := Some p])
        = drop (Suc i + length (filter P ps)) l"
      by simp
    ultimately show ?thesis
      using True Cons.IH [OF le] by simp
  next
    case False
    with Cons show ?thesis by simp
  qed
qed

lemma groupPhases_filter: "groupPhases P ps = map Some (filter P ps)"
  by (simp add: groupPhases_def countPhases_filter setPhases_filter)

lemma constructor_groupings:
  "groupPhases (\<lambda>p. \<not> phase_stationary p) (phaseModels s) = map Some (movingPhaseModels s)"
  "groupPhases (\<lambda>p. phase_stationary p) (phaseModels s) = map Some (stationaryPhaseModels s)"
  "groupPhases (\<lambda>p. \<not> phase_isothermal p) (phaseModels s) = map Some (anisothermalPhaseModels s)"
  "groupPhases (\<lambda>p. \<not> phase_pure p) (phaseModels s) = map Some (multiComponentPhaseModels s)"
  by (simp_all add: groupPhases_filter movingPhaseModels_def stationaryPhaseModels_def
      anisothermalPhaseModels_def multiComponentPhaseModels_def)

section \<open>Lookups\<close>

lemma lookupPhase_known:
  "n \<in> phase_name ` set ps \<Longrightarrow> \<exists>p. lookupPhase ps n = Inr p \<and> phase_name p = n \<and> p \<in> set ps"
  by (induction ps) (auto simp: lookupPhase_def)

lemma lookupPhase_unknown:
  "n \<notin> phase_name ` set ps \<Longrightarrow> lookupPhase ps n = Inl (UnknownPhase n)"
  by (induction ps) (auto simp: lookupPhase_def)

lemma HashTable_index_found:
  "HashTable_found t k \<Longrightarrow> \<exists>v. HashTable_lookup t k = Some v \<and> HashTable_index t k = Inr v"
  by (auto simp: HashTable_found_def HashTable_index_def)

section \<open>Sums of fields, location by location\<close>

lemma length_fadd: "length (fadd a b) = min (length a) (length b)"
  by (simp add: fadd_def)

lemma nth_fadd: "c < length a \<Longrightarrow> c < length b \<Longrightarrow> fadd a b ! c = a ! c + b ! c"
  by (simp add: fadd_def)

lemma length_fmul: "length (fmul a b) = min (length a) (length b)"
  by (simp add: fmul_def)

lemma nth_fmul: "c < length a \<Longrightarrow> c < length b \<Longrightarrow> fmul a b ! c = a ! c * b ! c"
  by (simp add: fmul_def)

lemma foldl_fadd:
  "\<forall>p\<in>set ps. length (f p) = n \<Longrightarrow> length acc = n \<Longrightarrow>
   length (foldl (\<lambda>a p. fadd a (f p)) acc ps) = n \<and>
   (\<forall>c<n. foldl (\<lambda>a p. fadd a (f p)) acc ps ! c = acc ! c + (\<Sum>p\<leftarrow>ps. f p ! c))"
proof (induction ps arbitrary: acc)
  case Nil
  then show ?case by simp
next
  case (Cons q ps)
  have l: "length (fadd acc (f q)) = n"
    using Cons.prems by (simp add: length_fadd)
  have "\<forall>p\<in>set ps. length (f p) = n" using Cons.prems by simp
  from Cons.IH [OF this l] show ?case
    using Cons.prems by (simp add: nth_fadd add.assoc)
qed

lemma fieldsOn_filter: "fieldsOn n ps \<Longrightarrow> fieldsOn n (filter P ps)"
  by (induction ps) (auto simp: fieldsOn_def)

lemma sumAlphaRho_pointwise:
  assumes "fieldsOn n (p0 # ps)"
  shows "length (sumAlphaRho p0 ps) = n \<and>
    (\<forall>c<n. sumAlphaRho p0 ps ! c = (\<Sum>p\<leftarrow>p0 # ps. phase_alpha p ! c * phase_rho p ! c))"
proof -
  let ?f = "\<lambda>p. fmul (phase_alpha p) (phase_rho p)"
  have a: "\<forall>p\<in>set ps. length (?f p) = n"
    using assms by (simp add: fieldsOn_def list_all_iff length_fmul)
  have b: "length (?f p0) = n"
    using assms by (simp add: fieldsOn_def length_fmul)
  have c: "\<forall>p\<in>set (p0 # ps). \<forall>c<n. ?f p ! c = phase_alpha p ! c * phase_rho p ! c"
    using assms by (simp add: fieldsOn_def list_all_iff nth_fmul)
  have d: "\<And>c. c < n \<Longrightarrow> (\<Sum>p\<leftarrow>ps. ?f p ! c) = (\<Sum>p\<leftarrow>ps. phase_alpha p ! c * phase_rho p ! c)"
    using c by (intro arg_cong [where f = sum_list] map_cong) auto
  from foldl_fadd [of ps ?f n "?f p0", OF a b] c d show ?thesis
    by (simp add: sumAlphaRho_def)
qed

lemma sumAlphaMoving_pointwise:
  assumes "fieldsOn n (p0 # ps)"
  shows "length (sumAlphaMoving p0 ps) = n \<and>
    (\<forall>c<n. sumAlphaMoving p0 ps ! c = (\<Sum>p\<leftarrow>p0 # ps. phase_alpha p ! c))"
proof -
  have a: "\<forall>p\<in>set ps. length (phase_alpha p) = n"
    using assms by (simp add: fieldsOn_def list_all_iff)
  have b: "length (phase_alpha p0) = n"
    using assms by (simp add: fieldsOn_def)
  from foldl_fadd [of ps phase_alpha n "phase_alpha p0", OF a b] show ?thesis
    by (simp add: sumAlphaMoving_def)
qed

lemma map2_replicate: "map2 f (replicate n a) (replicate n b) = replicate n (f a b)"
  by (simp add: zip_replicate)

section \<open>The loop of correctKinematics\<close>

lemma correctKinematics_loop_eq:
  "correctKinematics_loop hook ps u =
     (map hook ps, u \<or> (\<exists>p\<in>set ps. thermo_dpdt (phase_thermo (hook p))),
      map (\<lambda>p. CorrectKinematics (phase_name p)) ps)"
  by (induction ps arbitrary: u) (auto simp: Let_def)

lemma filter_isFvcDdt_hooks:
  "filter isFvcDdt (map (\<lambda>p. CorrectKinematics (phase_name p)) ps) = []"
  by (induction ps) auto

lemma filter_not_isFvcDdt_hooks:
  "filter (\<lambda>e. \<not> isFvcDdt e) (map (\<lambda>p. CorrectKinematics (phase_name p)) ps)
     = map (\<lambda>p. CorrectKinematics (phase_name p)) ps"
  by (induction ps) auto

section \<open>The loop of correctContinuityError\<close>

lemma massSource_in_range:
  "phase_index p < length l \<Longrightarrow>
   massSource opts l n p =
     Inr (let source1 = (if appliesToField opts (thermo_rhoName (phase_thermo p))
                         then fadd (replicate n 0)
                                (optionSource opts (phase_alpha p) (thermo_rho (phase_thermo p)))
                         else replicate n 0)
          in case l ! phase_index p of None \<Rightarrow> source1 | Some d \<Rightarrow> fadd source1 d)"
  by (auto simp: massSource_def PtrList_set_def uniformField_def Let_def split: option.splits)

lemma correctContinuityError_loop_eq:
  "\<forall>p\<in>set ms. massSource opts l n p = Inr (src p) \<Longrightarrow>
   correctContinuityError_loop hook opts l n ms =
     Inr (map (\<lambda>p. hook (src p) p) ms, map (\<lambda>p. CorrectContinuityError (phase_name p) (src p)) ms)"
  by (induction ms) auto

lemma writeMoving_map:
  "writeMoving ps (map f (filter (\<lambda>p. \<not> phase_stationary p) ps))
     = map (\<lambda>p. if phase_stationary p then p else f p) ps"
  by (induction ps) auto

section \<open>Keys, tables and the loop of generatePairs\<close>

lemma keyEq_refl: "keyEq a a"
  by (simp add: keyEq_def)

lemma keyEq_sym: "keyEq a b \<Longrightarrow> keyEq b a"
  by (auto simp: keyEq_def)

lemma keyEq_trans: "keyEq a b \<Longrightarrow> keyEq b c \<Longrightarrow> keyEq a c"
  by (auto simp: keyEq_def)

lemma keyEq_unordered: "keyEq (mkKey a b False) (mkKey b a False)"
  by (simp add: keyEq_def mkKey_def)

lemma HashTable_lookup_keyEq:
  "keyEq k1 k2 \<Longrightarrow> HashTable_lookup t k1 = HashTable_lookup t k2"
proof (induction t)
  case Nil
  then show ?case by simp
next
  case (Cons e t)
  obtain k' v where e: "e = (k', v)" by (cases e)
  have "keyEq k' k1 = keyEq k' k2"
    using Cons.prems keyEq_trans keyEq_sym by blast
  with Cons show ?case by (simp add: e)
qed

lemma HashTable_lookup_append:
  "HashTable_lookup t k = Some v \<Longrightarrow> HashTable_lookup (t @ u) k = Some v"
  by (induction t) (auto split: if_splits)

lemma HashTable_lookup_append_new:
  "HashTable_lookup t k = None \<Longrightarrow> HashTable_lookup (t @ [(k, v)]) k = Some v"
  by (induction t) (auto simp: keyEq_refl split: if_splits)

lemma HashTable_found_set:
  "HashTable_found t k = (\<exists>e\<in>set t. keyEq (fst e) k)"
  by (induction t) (auto simp: HashTable_found_def)

lemma HashTable_found_nth:
  "HashTable_found t k = (\<exists>i<length t. keyEq (fst (t ! i)) k)"
  by (simp add: HashTable_found_set) (metis in_set_conv_nth)

lemma generatePair_cases:
  assumes "generatePair s key = Inr s'"
  shows "(HashTable_found (phasePairs s) key \<and> s' = s) \<or>
         (\<not> HashTable_found (phasePairs s) key \<and>
          (\<exists>pr. s' = s\<lparr>pairHeap := pairHeap s @ [pr],
                         phasePairs := phasePairs s @ [(key, length (pairHeap s))]\<rparr>))"
  using assms
  by (auto simp: generatePair_def newPair_def HashTable_insert_def split: if_splits sum.splits)

lemma generatePair_found:
  "HashTable_found (phasePairs s) key \<Longrightarrow> generatePair s key = Inr s"
  by (simp add: generatePair_def)

lemma generatePair_found_after:
  assumes "generatePair s key = Inr s'"
  shows "HashTable_found (phasePairs s') key"
  using generatePair_cases [OF assms]
  by (auto simp: HashTable_found_def HashTable_lookup_append_new)

lemma generatePair_stable:
  assumes "generatePair s key = Inr s'"
  shows "(HashTable_lookup (phasePairs s) k = Some a \<longrightarrow> HashTable_lookup (phasePairs s') k = Some a)
         \<and> (\<exists>ext. pairHeap s' = pairHeap s @ ext)"
  using generatePair_cases [OF assms]
  by (auto simp: HashTable_lookup_append)

lemma generatePair_onePairPerKey:
  assumes g: "generatePair s key = Inr s'" and inv: "onePairPerKey s"
  shows "onePairPerKey s'"
proof -
  from generatePair_cases [OF g] show ?thesis
  proof
    assume "HashTable_found (phasePairs s) key \<and> s' = s"
    with inv show ?thesis by simp
  next
    assume h: "\<not> HashTable_found (phasePairs s) key \<and>
          (\<exists>pr. s' = s\<lparr>pairHeap := pairHeap s @ [pr],
                         phasePairs := phasePairs s @ [(key, length (pairHeap s))]\<rparr>)"
    then obtain pr where s': "s' = s\<lparr>pairHeap := pairHeap s @ [pr],
                         phasePairs := phasePairs s @ [(key, length (pairHeap s))]\<rparr>"
      by blast
    let ?t = "phasePairs s"
    have nf: "\<forall>i<length ?t. \<not> keyEq (fst (?t ! i)) key"
      using h by (simp add: HashTable_found_nth)
    have nf': "\<forall>i<length ?t. \<not> keyEq key (fst (?t ! i))"
      using nf keyEq_sym by blast
    have old: "\<forall>i<length ?t. \<forall>j<length ?t. keyEq (fst (?t ! i)) (fst (?t ! j)) \<longrightarrow> i = j"
      and addr: "map snd ?t = [0..<length (pairHeap s)]"
      using inv by (simp_all add: onePairPerKey_def)
    have "\<forall>i<Suc (length ?t). \<forall>j<Suc (length ?t).
        keyEq (fst ((?t @ [(key, length (pairHeap s))]) ! i))
              (fst ((?t @ [(key, length (pairHeap s))]) ! j)) \<longrightarrow> i = j"
      using nf nf' old by (auto simp: nth_append less_Suc_eq)
    then show ?thesis
      by (simp add: onePairPerKey_def s' addr)
  qed
qed

lemma generatePairs_stable:
  "generatePairs s ds = Inr s' \<Longrightarrow>
   (HashTable_lookup (phasePairs s) k = Some a \<longrightarrow> HashTable_lookup (phasePairs s') k = Some a)
   \<and> (\<exists>ext. pairHeap s' = pairHeap s @ ext)"
proof (induction ds arbitrary: s)
  case Nil
  then show ?case by simp
next
  case (Cons e ds)
  obtain key d where e: "e = (key, d)" by (cases e)
  from Cons.prems obtain s1 where s1: "generatePair s key = Inr s1" "generatePairs s1 ds = Inr s'"
    by (auto simp: e split: sum.splits)
  from generatePair_stable [OF s1(1), of k a] Cons.IH [OF s1(2)] show ?case
    by auto
qed

lemma generatePairs_found_after:
  "generatePairs s ds = Inr s' \<Longrightarrow> \<forall>e\<in>set ds. HashTable_found (phasePairs s') (fst e)"
proof (induction ds arbitrary: s)
  case Nil
  then show ?case by simp
next
  case (Cons e ds)
  obtain key d where e: "e = (key, d)" by (cases e)
  from Cons.prems obtain s1 where s1: "generatePair s key = Inr s1" "generatePairs s1 ds = Inr s'"
    by (auto simp: e split: sum.splits)
  from generatePair_found_after [OF s1(1)] obtain a where "HashTable_lookup (phasePairs s1) key = Some a"
    by (auto simp: HashTable_found_def)
  with generatePairs_stable [OF s1(2), of key a] have "HashTable_found (phasePairs s') key"
    by (simp add: HashTable_found_def)
  with Cons.IH [OF s1(2)] show ?case by (simp add: e)
qed

lemma generatePairs_all_found:
  "\<forall>e\<in>set ds. HashTable_found (phasePairs s) (fst e) \<Longrightarrow> generatePairs s ds = Inr s"
  by (induction ds) (auto simp: generatePair_found)

lemma generatePairs_onePairPerKey:
  "generatePairs s ds = Inr s' \<Longrightarrow> onePairPerKey s \<Longrightarrow> onePairPerKey s'"
proof (induction ds arbitrary: s)
  case Nil
  then show ?case by simp
next
  case (Cons e ds)
  obtain key d where e: "e = (key, d)" by (cases e)
  from Cons.prems obtain s1 where s1: "generatePair s key = Inr s1" "generatePairs s1 ds = Inr s'"
    by (auto simp: e split: sum.splits)
  from generatePair_onePairPerKey [OF s1(1) Cons.prems(2)] Cons.IH [OF s1(2)] show ?case
    by blast
qed

lemma generatePairsSeq_onePairPerKey:
  "generatePairsSeq s dss = Inr s' \<Longrightarrow> onePairPerKey s \<Longrightarrow> onePairPerKey s'"
proof (induction dss arbitrary: s)
  case Nil
  then show ?case by simp
next
  case (Cons ds dss)
  from Cons.prems obtain s1 where s1: "generatePairs s ds = Inr s1" "generatePairsSeq s1 dss = Inr s'"
    by (auto split: sum.splits)
  from generatePairs_onePairPerKey [OF s1(1) Cons.prems(2)] Cons.IH [OF s1(2)] show ?case
    by blast
qed

section \<open>generatePairs\<close>

text \<open>
  Claim C1. A request for a key that already has a pair leaves the system as it is: no
  pair is allocated and the table is unchanged. A call of \<^verbatim>\<open>generatePairs\<close> that succeeds
  changes nothing when it is repeated, keeps every pair object allocated before it, and
  keeps every key that had a pair on the same pair. After any sequence of calls that
  starts from an empty registry, the registry holds one pair per key (no two entries with
  equal keys, and the allocated pairs are exactly the ones the entries own). The
  unordered keys of \<open>a\<close>, \<open>b\<close> and of \<open>b\<close>, \<open>a\<close> are equal and are looked up to the same
  pair.
\<close>

theorem generatePairs_idempotent:
  "(HashTable_found (phasePairs s) key \<longrightarrow> generatePair s key = Inr s) \<and>
   (generatePairs s modelDicts = Inr s' \<longrightarrow>
      generatePairs s' modelDicts = Inr s' \<and>
      take (length (pairHeap s)) (pairHeap s') = pairHeap s \<and>
      (\<forall>k addr. HashTable_lookup (phasePairs s) k = Some addr
               \<longrightarrow> HashTable_lookup (phasePairs s') k = Some addr)) \<and>
   (phasePairs s0 = [] \<and> pairHeap s0 = [] \<and> generatePairsSeq s0 dictss = Inr s1
      \<longrightarrow> onePairPerKey s1) \<and>
   keyEq (mkKey a b False) (mkKey b a False) \<and>
   HashTable_lookup (phasePairs s) (mkKey a b False)
     = HashTable_lookup (phasePairs s) (mkKey b a False)"
proof (intro conjI impI allI)
  assume "HashTable_found (phasePairs s) key"
  then show "generatePair s key = Inr s" by (rule generatePair_found)
next
  assume g: "generatePairs s modelDicts = Inr s'"
  from generatePairs_all_found [OF generatePairs_found_after [OF g]]
  show "generatePairs s' modelDicts = Inr s'" .
next
  assume g: "generatePairs s modelDicts = Inr s'"
  from generatePairs_stable [OF g, of key 0] obtain ext where "pairHeap s' = pairHeap s @ ext"
    by blast
  then show "take (length (pairHeap s)) (pairHeap s') = pairHeap s"
    by simp
next
  fix k addr
  assume g: "generatePairs s modelDicts = Inr s'"
    and "HashTable_lookup (phasePairs s) k = Some addr"
  with generatePairs_stable [OF g, of k addr] show "HashTable_lookup (phasePairs s') k = Some addr"
    by blast
next
  assume h: "phasePairs s0 = [] \<and> pairHeap s0 = [] \<and> generatePairsSeq s0 dictss = Inr s1"
  then have "onePairPerKey s0" by (simp add: onePairPerKey_def)
  with h generatePairsSeq_onePairPerKey show "onePairPerKey s1" by blast
next
  show "keyEq (mkKey a b False) (mkKey b a False)" by (rule keyEq_unordered)
next
  show "HashTable_lookup (phasePairs s) (mkKey a b False)
     = HashTable_lookup (phasePairs s) (mkKey b a False)"
    by (rule HashTable_lookup_keyEq [OF keyEq_unordered])
qed

text \<open>
  Two calls on the three-phase system: the second names the unordered pair of the first
  in the other order (no new pair), an ordered pair in the other order (a new pair) and
  an ordered pair again (no new pair).
\<close>

theorem generatePairs_witness:
  "generatePairsSeq threePhases [firstDicts, secondDicts] = Inr registered \<and>
   generatePairs threePhases (firstDicts @ secondDicts) = Inr registered \<and>
   generatePairs registered (firstDicts @ secondDicts) = Inr registered \<and>
   generatePair registered (mkKey ''water'' ''air'' False) = Inr registered \<and>
   onePairPerKey registered \<and>
   HashTable_lookup (phasePairs registered) (mkKey ''air'' ''water'' False) = Some 0 \<and>
   HashTable_lookup (phasePairs registered) (mkKey ''water'' ''air'' False) = Some 0"
proof -
  have run: "generatePairsSeq threePhases [firstDicts, secondDicts] = Inr registered"
    by (simp add: firstDicts_def secondDicts_def registered_def threePhases_def exampleSystem_def
        examplePhase_def generatePair_def newPair_def lookupPhase_def HashTable_found_def
        HashTable_insert_def keyEq_def mkKey_def)
  have once: "generatePairs threePhases (firstDicts @ secondDicts) = Inr registered"
    by (simp add: firstDicts_def secondDicts_def registered_def threePhases_def exampleSystem_def
        examplePhase_def generatePair_def newPair_def lookupPhase_def HashTable_found_def
        HashTable_insert_def keyEq_def mkKey_def)
  have empty: "phasePairs threePhases = [] \<and> pairHeap threePhases = []"
    by (simp add: threePhases_def exampleSystem_def)
  have found: "HashTable_found (phasePairs registered) (mkKey ''water'' ''air'' False)"
    by (simp add: registered_def HashTable_found_def keyEq_def mkKey_def)
  have look: "HashTable_lookup (phasePairs registered) (mkKey ''air'' ''water'' False) = Some 0"
    by (simp add: registered_def keyEq_def mkKey_def)
  from generatePairs_idempotent
    [where s = threePhases and modelDicts = "firstDicts @ secondDicts" and s' = registered]
    once
  have twice: "generatePairs registered (firstDicts @ secondDicts) = Inr registered"
    by blast
  from generatePairs_idempotent
    [where s = registered and key = "mkKey ''water'' ''air'' False"
       and modelDicts = secondDicts and s' = registered
       and ?s0.0 = threePhases and dictss = "[firstDicts, secondDicts]"
       and ?s1.0 = registered and a = "''air''" and b = "''water''"]
    run empty found look
  have "generatePair registered (mkKey ''water'' ''air'' False) = Inr registered \<and>
   onePairPerKey registered \<and>
   HashTable_lookup (phasePairs registered) (mkKey ''water'' ''air'' False) = Some 0"
    by metis
  with run once twice look show ?thesis by simp
qed

section \<open>The mixture density\<close>

text \<open>
  Claim C2. In a system without stationary phases (with at least one phase, as every
  constructed system has, and all fields on the mesh) every phase is a moving phase and
  \<^verbatim>\<open>rho()\<close> returns, at every location, the sum over the moving phases of fraction times
  density, with no division; this holds whatever the fractions sum to, so in particular
  when they sum to 1. With two moving phases of fractions 0.3 and 0.7 and
  densities 1000 and 1.2 the result is 0.3 * 1000 + 0.7 * 1.2 at every location, on a mesh
  of any size.
\<close>

theorem rho_without_stationary:
  "(stationaryPhaseModels s = [] \<and> phaseModels s \<noteq> [] \<and>
    fieldsOn (mesh_nCells s) (phaseModels s) \<longrightarrow>
      movingPhaseModels s = phaseModels s \<and>
      (\<exists>w. rho s = Inr w \<and> length w = mesh_nCells s \<and>
           (\<forall>c<mesh_nCells s.
              w ! c = (\<Sum>p\<leftarrow>movingPhaseModels s. phase_alpha p ! c * phase_rho p ! c)))) \<and>
   rho (twoMoving n) = Inr (replicate n (0.3 * 1000 + 0.7 * 1.2))"
proof (intro conjI impI)
  assume h: "stationaryPhaseModels s = [] \<and> phaseModels s \<noteq> [] \<and>
    fieldsOn (mesh_nCells s) (phaseModels s)"
  then show "movingPhaseModels s = phaseModels s"
    by (simp add: stationaryPhaseModels_def movingPhaseModels_def filter_empty_conv)
next
  assume h: "stationaryPhaseModels s = [] \<and> phaseModels s \<noteq> [] \<and>
    fieldsOn (mesh_nCells s) (phaseModels s)"
  then have all: "movingPhaseModels s = phaseModels s"
    by (simp add: stationaryPhaseModels_def movingPhaseModels_def filter_empty_conv)
  from h obtain p0 ps where "phaseModels s = p0 # ps"
    by (cases "phaseModels s") auto
  with all have m: "movingPhaseModels s = p0 # ps"
    by simp
  have "fieldsOn (mesh_nCells s) (p0 # ps)"
    using h m fieldsOn_filter [of "mesh_nCells s" "phaseModels s" "\<lambda>p. \<not> phase_stationary p"]
    by (simp add: movingPhaseModels_def)
  from sumAlphaRho_pointwise [OF this] have
    "length (sumAlphaRho p0 ps) = mesh_nCells s \<and>
     (\<forall>c<mesh_nCells s. sumAlphaRho p0 ps ! c
        = (\<Sum>p\<leftarrow>movingPhaseModels s. phase_alpha p ! c * phase_rho p ! c))"
    unfolding m .
  moreover have "rho s = Inr (sumAlphaRho p0 ps)"
    using h m by (simp add: rho_def)
  ultimately show "\<exists>w. rho s = Inr w \<and> length w = mesh_nCells s \<and>
           (\<forall>c<mesh_nCells s.
              w ! c = (\<Sum>p\<leftarrow>movingPhaseModels s. phase_alpha p ! c * phase_rho p ! c))"
    by blast
next
  show "rho (twoMoving n) = Inr (replicate n (0.3 * 1000 + 0.7 * 1.2))"
    by (simp add: rho_def twoMoving_def exampleSystem_def examplePhase_def movingPhaseModels_def
        stationaryPhaseModels_def sumAlphaRho_def phase_rho_def fadd_def fmul_def uniformField_def
        map2_replicate)
qed

text \<open>The two-phase system on a mesh of two locations.\<close>

theorem rho_without_stationary_witness:
  "\<exists>w. rho (twoMoving 2) = Inr w \<and> length w = 2 \<and> w ! 0 = 300.84 \<and> w ! 1 = 300.84"
proof -
  have a: "stationaryPhaseModels (twoMoving 2) = []"
    by (simp add: twoMoving_def exampleSystem_def examplePhase_def stationaryPhaseModels_def)
  have b: "movingPhaseModels (twoMoving 2) =
      [examplePhase ''water'' 0 2 0.3 1000 False, examplePhase ''air'' 1 2 0.7 1.2 False]"
    by (simp add: twoMoving_def exampleSystem_def examplePhase_def movingPhaseModels_def)
  have c: "fieldsOn (mesh_nCells (twoMoving 2)) (phaseModels (twoMoving 2))"
    by (simp add: twoMoving_def exampleSystem_def examplePhase_def fieldsOn_def phase_rho_def
        uniformField_def)
  have n: "mesh_nCells (twoMoving 2) = 2"
    by (simp add: twoMoving_def exampleSystem_def)
  have b': "phaseModels (twoMoving 2) \<noteq> []"
    by (simp add: twoMoving_def exampleSystem_def)
  from rho_without_stationary [of "twoMoving 2" 2] a b' c
  obtain w where w: "rho (twoMoving 2) = Inr w" "length w = 2"
    "\<forall>c<2. w ! c = (\<Sum>p\<leftarrow>movingPhaseModels (twoMoving 2). phase_alpha p ! c * phase_rho p ! c)"
    unfolding n by blast
  have "w ! 0 = (\<Sum>p\<leftarrow>movingPhaseModels (twoMoving 2). phase_alpha p ! 0 * phase_rho p ! 0)"
    "w ! 1 = (\<Sum>p\<leftarrow>movingPhaseModels (twoMoving 2). phase_alpha p ! 1 * phase_rho p ! 1)"
    using w(3) by simp_all
  then have "w ! 0 = 300.84" "w ! 1 = 300.84"
    unfolding b by (simp_all add: examplePhase_def phase_rho_def uniformField_def numeral_2_eq_2)
  with w show ?thesis by blast
qed

text \<open>
  Claim C3. In a system with a stationary phase \<^verbatim>\<open>rho()\<close> returns, at every location, the
  sum over the moving phases of fraction times density divided by the sum of the moving
  phases' fractions there (for a system with a moving phase, all fields on the mesh, and
  the sum of the moving fractions nowhere zero: where the C++ is defined). With one moving
  phase of fraction 0.6 and density 1000 and one stationary phase of fraction 0.4 the
  result is 1000 at every location, on a mesh of any size.
\<close>

theorem rho_with_stationary:
  "(stationaryPhaseModels s \<noteq> [] \<and> movingPhaseModels s \<noteq> [] \<and>
    fieldsOn (mesh_nCells s) (phaseModels s) \<and>
    (\<forall>c<mesh_nCells s. (\<Sum>p\<leftarrow>movingPhaseModels s. phase_alpha p ! c) \<noteq> 0) \<longrightarrow>
      (\<exists>w. rho s = Inr w \<and> length w = mesh_nCells s \<and>
           (\<forall>c<mesh_nCells s.
              w ! c = (\<Sum>p\<leftarrow>movingPhaseModels s. phase_alpha p ! c * phase_rho p ! c)
                      / (\<Sum>p\<leftarrow>movingPhaseModels s. phase_alpha p ! c)))) \<and>
   rho (movingAndStationary n) = Inr (replicate n 1000)"
proof (intro conjI impI)
  assume h: "stationaryPhaseModels s \<noteq> [] \<and> movingPhaseModels s \<noteq> [] \<and>
    fieldsOn (mesh_nCells s) (phaseModels s) \<and>
    (\<forall>c<mesh_nCells s. (\<Sum>p\<leftarrow>movingPhaseModels s. phase_alpha p ! c) \<noteq> 0)"
  let ?n = "mesh_nCells s"
  from h obtain p0 ps where m: "movingPhaseModels s = p0 # ps"
    by (cases "movingPhaseModels s") auto
  have f: "fieldsOn ?n (p0 # ps)"
    using h m fieldsOn_filter [of ?n "phaseModels s" "\<lambda>p. \<not> phase_stationary p"]
    by (simp add: movingPhaseModels_def)
  from sumAlphaRho_pointwise [OF f] have num:
    "length (sumAlphaRho p0 ps) = ?n"
    "\<forall>c<?n. sumAlphaRho p0 ps ! c
        = (\<Sum>p\<leftarrow>movingPhaseModels s. phase_alpha p ! c * phase_rho p ! c)"
    unfolding m by simp_all
  from sumAlphaMoving_pointwise [OF f] have den:
    "length (sumAlphaMoving p0 ps) = ?n"
    "\<forall>c<?n. sumAlphaMoving p0 ps ! c = (\<Sum>p\<leftarrow>movingPhaseModels s. phase_alpha p ! c)"
    unfolding m by simp_all
  have nz: "0 \<notin> set (sumAlphaMoving p0 ps)"
  proof
    assume "0 \<in> set (sumAlphaMoving p0 ps)"
    then obtain c where "c < ?n" "sumAlphaMoving p0 ps ! c = 0"
      using den(1) by (metis in_set_conv_nth)
    with den(2) h show False by simp
  qed
  let ?w = "map2 (/) (sumAlphaRho p0 ps) (sumAlphaMoving p0 ps)"
  have r: "rho s = Inr ?w"
    using h m nz by (simp add: rho_def fdiv_def)
  have "length ?w = ?n" using num(1) den(1) by simp
  moreover have "\<forall>c<?n. ?w ! c
      = (\<Sum>p\<leftarrow>movingPhaseModels s. phase_alpha p ! c * phase_rho p ! c)
        / (\<Sum>p\<leftarrow>movingPhaseModels s. phase_alpha p ! c)"
    using num den by simp
  ultimately show "\<exists>w. rho s = Inr w \<and> length w = ?n \<and>
           (\<forall>c<?n.
              w ! c = (\<Sum>p\<leftarrow>movingPhaseModels s. phase_alpha p ! c * phase_rho p ! c)
                      / (\<Sum>p\<leftarrow>movingPhaseModels s. phase_alpha p ! c))"
    using r by blast
next
  show "rho (movingAndStationary n) = Inr (replicate n 1000)"
    by (simp add: rho_def movingAndStationary_def exampleSystem_def examplePhase_def
        movingPhaseModels_def stationaryPhaseModels_def sumAlphaRho_def sumAlphaMoving_def
        phase_rho_def fdiv_def fmul_def uniformField_def map2_replicate)
qed

text \<open>The system of one moving and one stationary phase on a mesh of two locations.\<close>

theorem rho_with_stationary_witness:
  "\<exists>w. rho (movingAndStationary 2) = Inr w \<and> length w = 2 \<and> w ! 0 = 1000 \<and> w ! 1 = 1000"
proof -
  let ?s = "movingAndStationary 2"
  have a: "stationaryPhaseModels ?s \<noteq> []"
    by (simp add: movingAndStationary_def exampleSystem_def examplePhase_def stationaryPhaseModels_def)
  have b: "movingPhaseModels ?s = [examplePhase ''water'' 0 2 0.6 1000 False]"
    by (simp add: movingAndStationary_def exampleSystem_def examplePhase_def movingPhaseModels_def)
  have b': "movingPhaseModels ?s \<noteq> []"
    by (simp add: b)
  have c: "fieldsOn (mesh_nCells ?s) (phaseModels ?s)"
    by (simp add: movingAndStationary_def exampleSystem_def examplePhase_def fieldsOn_def
        phase_rho_def uniformField_def)
  have n: "mesh_nCells ?s = 2"
    by (simp add: movingAndStationary_def exampleSystem_def)
  have d: "\<forall>c<mesh_nCells ?s. (\<Sum>p\<leftarrow>movingPhaseModels ?s. phase_alpha p ! c) \<noteq> 0"
    unfolding b n by (simp add: examplePhase_def uniformField_def)
  from rho_with_stationary [of ?s 2] a b' c d
  obtain w where w: "rho ?s = Inr w" "length w = 2"
    "\<forall>c<2. w ! c = (\<Sum>p\<leftarrow>movingPhaseModels ?s. phase_alpha p ! c * phase_rho p ! c)
                     / (\<Sum>p\<leftarrow>movingPhaseModels ?s. phase_alpha p ! c)"
    unfolding n by blast
  have "w ! 0 = (\<Sum>p\<leftarrow>movingPhaseModels ?s. phase_alpha p ! 0 * phase_rho p ! 0)
                     / (\<Sum>p\<leftarrow>movingPhaseModels ?s. phase_alpha p ! 0)"
    "w ! 1 = (\<Sum>p\<leftarrow>movingPhaseModels ?s. phase_alpha p ! 1 * phase_rho p ! 1)
                     / (\<Sum>p\<leftarrow>movingPhaseModels ?s. phase_alpha p ! 1)"
    using w(3) by simp_all
  then have "w ! 0 = 1000" "w ! 1 = 1000"
    unfolding b by (simp_all add: examplePhase_def phase_rho_def uniformField_def numeral_2_eq_2)
  with w show ?thesis by blast
qed

section \<open>Aspect ratio and surface tension without a model\<close>

text \<open>
  Claim C4. Without a surface-tension model for the key, \<^verbatim>\<open>sigma\<close> returns the field that is
  0 at every location; without an aspect-ratio model, \<^verbatim>\<open>E\<close> returns the field that is 1 at
  every location; with a model for the key the model's own field is returned; and neither
  query ever fails.
\<close>

theorem E_sigma_default_or_model:
  "(\<not> HashTable_found (surfaceTensionModels s) key
      \<longrightarrow> sigma s key = Inr (replicate (mesh_nCells s) 0)) \<and>
   (\<not> HashTable_found (aspectRatioModels s) key
      \<longrightarrow> E s key = Inr (replicate (mesh_nCells s) 1)) \<and>
   (\<forall>m. HashTable_lookup (surfaceTensionModels s) key = Some m
      \<longrightarrow> sigma s key = Inr (m (phaseModels s))) \<and>
   (\<forall>m. HashTable_lookup (aspectRatioModels s) key = Some m
      \<longrightarrow> E s key = Inr (m (phaseModels s))) \<and>
   (\<forall>e. sigma s key \<noteq> Inl e) \<and> (\<forall>e. E s key \<noteq> Inl e)"
proof (intro conjI allI impI)
  assume "\<not> HashTable_found (surfaceTensionModels s) key"
  then show "sigma s key = Inr (replicate (mesh_nCells s) 0)"
    by (simp add: sigma_def uniformField_def)
next
  assume "\<not> HashTable_found (aspectRatioModels s) key"
  then show "E s key = Inr (replicate (mesh_nCells s) 1)"
    by (simp add: E_def uniformField_def)
next
  fix m assume "HashTable_lookup (surfaceTensionModels s) key = Some m"
  then show "sigma s key = Inr (m (phaseModels s))"
    by (simp add: sigma_def HashTable_found_def HashTable_index_def)
next
  fix m assume "HashTable_lookup (aspectRatioModels s) key = Some m"
  then show "E s key = Inr (m (phaseModels s))"
    by (simp add: E_def HashTable_found_def HashTable_index_def)
next
  fix e show "sigma s key \<noteq> Inl e"
    using HashTable_index_found [of "surfaceTensionModels s" key]
    by (auto simp: sigma_def)
next
  fix e show "E s key \<noteq> Inl e"
    using HashTable_index_found [of "aspectRatioModels s" key]
    by (auto simp: E_def)
qed

text \<open>A system without models, and one with a model in each table.\<close>

theorem E_sigma_witness:
  "sigma threePhases (mkKey ''air'' ''water'' False) = Inr [0, 0] \<and>
   E threePhases (mkKey ''air'' ''water'' False) = Inr [1, 1] \<and>
   sigma withModels (mkKey ''water'' ''air'' False) = Inr [0.07, 0.07] \<and>
   E withModels (mkKey ''air'' ''water'' True) = Inr [1.5, 1.5] \<and>
   E withModels (mkKey ''water'' ''air'' True) = Inr [1, 1]"
proof -
  have n: "mesh_nCells threePhases = 2" "mesh_nCells withModels = 2"
    by (simp_all add: withModels_def threePhases_def exampleSystem_def)
  have a: "\<not> HashTable_found (surfaceTensionModels threePhases) (mkKey ''air'' ''water'' False)"
    "\<not> HashTable_found (aspectRatioModels threePhases) (mkKey ''air'' ''water'' False)"
    by (simp_all add: threePhases_def exampleSystem_def HashTable_found_def)
  have b: "HashTable_lookup (surfaceTensionModels withModels) (mkKey ''water'' ''air'' False)
      = Some (\<lambda>ps. uniformField 2 0.07)"
    "HashTable_lookup (aspectRatioModels withModels) (mkKey ''air'' ''water'' True)
      = Some (\<lambda>ps. uniformField 2 1.5)"
    "\<not> HashTable_found (aspectRatioModels withModels) (mkKey ''water'' ''air'' True)"
    by (simp_all add: withModels_def HashTable_found_def keyEq_def mkKey_def)
  from E_sigma_default_or_model [of threePhases "mkKey ''air'' ''water'' False"]
    E_sigma_default_or_model [of withModels "mkKey ''water'' ''air'' False"]
    E_sigma_default_or_model [of withModels "mkKey ''air'' ''water'' True"]
    E_sigma_default_or_model [of withModels "mkKey ''water'' ''air'' True"]
    a b n
  show ?thesis
    by (simp add: numeral_2_eq_2 uniformField_def)
qed

section \<open>correctKinematics\<close>

text \<open>
  Claim C5, as amended. \<^verbatim>\<open>correctKinematics\<close> calls the hook of every phase, in the order of
  the phase list, and recomputes \<^verbatim>\<open>dpdt_\<close> exactly once in the call, from the pressure of
  the first phase, if and only if some phase of the whole phase list, isothermal or not,
  has the \<^verbatim>\<open>dpdt\<close> switch of its thermo set (read after the phase's hook has run);
  otherwise it does not recompute it. The recomputation never happens more than once.
\<close>

theorem correctKinematics_hooks_and_dpdt:
  "\<exists>s' evs. correctKinematics hook ddt s = Inr (s', evs) \<and>
     phaseModels s' = map hook (phaseModels s) \<and>
     filter (\<lambda>e. \<not> isFvcDdt e) evs = map (\<lambda>p. CorrectKinematics (phase_name p)) (phaseModels s) \<and>
     length (filter isFvcDdt evs)
       = (if \<exists>p\<in>set (phaseModels s). thermo_dpdt (phase_thermo (hook p)) then 1 else 0) \<and>
     ((\<exists>p\<in>set (phaseModels s). thermo_dpdt (phase_thermo (hook p))) \<longrightarrow>
        evs = map (\<lambda>p. CorrectKinematics (phase_name p)) (phaseModels s)
              @ [FvcDdt (thermo_p (phase_thermo (hd (phaseModels s'))))] \<and>
        dpdt s' = ddt (thermo_p (phase_thermo (hd (phaseModels s'))))) \<and>
     (\<not> (\<exists>p\<in>set (phaseModels s). thermo_dpdt (phase_thermo (hook p))) \<longrightarrow>
        evs = map (\<lambda>p. CorrectKinematics (phase_name p)) (phaseModels s) \<and>
        dpdt s' = dpdt s)"
proof (cases "\<exists>p\<in>set (phaseModels s). thermo_dpdt (phase_thermo (hook p))")
  case True
  then obtain p0 ps where ps: "phaseModels s = p0 # ps"
    by (cases "phaseModels s") auto
  let ?f = "thermo_p (phase_thermo (hook p0))"
  have "correctKinematics hook ddt s =
      Inr (s\<lparr>phaseModels := map hook (phaseModels s), dpdt := ddt ?f\<rparr>,
           map (\<lambda>p. CorrectKinematics (phase_name p)) (phaseModels s) @ [FvcDdt ?f])"
    using True by (simp add: correctKinematics_def correctKinematics_loop_eq ps)
  then show ?thesis
    using True by (simp add: ps filter_isFvcDdt_hooks filter_not_isFvcDdt_hooks)
next
  case False
  have "correctKinematics hook ddt s =
      Inr (s\<lparr>phaseModels := map hook (phaseModels s)\<rparr>,
           map (\<lambda>p. CorrectKinematics (phase_name p)) (phaseModels s))"
    using False by (simp add: correctKinematics_def correctKinematics_loop_eq)
  then show ?thesis
    using False by (simp add: filter_isFvcDdt_hooks filter_not_isFvcDdt_hooks)
qed

text \<open>Two phases that both ask for the update: one recomputation, after the two hooks.\<close>

theorem correctKinematics_witness:
  "correctKinematics exampleKinematics exampleDdt twoRequesting =
     Inr (twoRequesting\<lparr>phaseModels := map exampleKinematics (phaseModels twoRequesting),
                         dpdt := [1000, 1000]\<rparr>,
          [CorrectKinematics ''water'', CorrectKinematics ''air'', FvcDdt [100000, 100000]])"
proof -
  have a: "\<exists>p\<in>set (phaseModels twoRequesting). thermo_dpdt (phase_thermo (exampleKinematics p))"
    by (simp add: twoRequesting_def exampleSystem_def requesting_def exampleKinematics_def)
  from correctKinematics_hooks_and_dpdt [of exampleKinematics exampleDdt twoRequesting] a
  obtain s' evs where r: "correctKinematics exampleKinematics exampleDdt twoRequesting = Inr (s', evs)"
    "evs = map (\<lambda>p. CorrectKinematics (phase_name p)) (phaseModels twoRequesting)
              @ [FvcDdt (thermo_p (phase_thermo (hd (phaseModels s'))))]"
    "phaseModels s' = map exampleKinematics (phaseModels twoRequesting)"
    by blast
  have "evs = [CorrectKinematics ''water'', CorrectKinematics ''air'', FvcDdt [100000, 100000]]"
    unfolding r(2) r(3)
    by (simp add: twoRequesting_def exampleSystem_def requesting_def exampleKinematics_def
        examplePhase_def uniformField_def numeral_2_eq_2)
  moreover have "s' = twoRequesting\<lparr>phaseModels := map exampleKinematics (phaseModels twoRequesting),
                         dpdt := [1000, 1000]\<rparr>"
    using r(1)
    by (simp add: correctKinematics_def correctKinematics_loop_eq twoRequesting_def
        exampleSystem_def requesting_def exampleKinematics_def examplePhase_def uniformField_def
        exampleDdt_def numeral_2_eq_2)
  ultimately show ?thesis using r(1) by simp
qed

text \<open>
  Claim C5 as stated says that the recomputation happens only when an anisothermal phase
  asks for it. In a system whose only phase is isothermal and has the switch set, the
  list of anisothermal phases is empty and \<^verbatim>\<open>dpdt_\<close> is recomputed all the same.
\<close>

theorem correctKinematics_isothermal_counterexample:
  "correctKinematics (\<lambda>p. p) exampleDdt isothermalRequesting =
     Inr (isothermalRequesting\<lparr>dpdt := [1000, 1000]\<rparr>,
          [CorrectKinematics ''water'', FvcDdt [100000, 100000]]) \<and>
   dpdt isothermalRequesting = [0, 0] \<and>
   anisothermalPhaseModels isothermalRequesting = []"
  by (simp add: correctKinematics_def correctKinematics_loop_eq isothermalRequesting_def
      exampleSystem_def requesting_def examplePhase_def uniformField_def exampleDdt_def
      anisothermalPhaseModels_def numeral_2_eq_2)

text \<open>
  Claim C10. When no phase has the \<^verbatim>\<open>dpdt\<close> switch of its thermo set (read after the phase's
  hook has run), \<^verbatim>\<open>correctKinematics\<close> calls the hook of every phase and changes nothing of
  the system but the phases: \<^verbatim>\<open>dpdt_\<close> is as before.
\<close>

theorem correctKinematics_no_request:
  "(\<forall>p\<in>set (phaseModels s). \<not> thermo_dpdt (phase_thermo (hook p))) \<longrightarrow>
     correctKinematics hook ddt s =
       Inr (s\<lparr>phaseModels := map hook (phaseModels s)\<rparr>,
            map (\<lambda>p. CorrectKinematics (phase_name p)) (phaseModels s)) \<and>
     dpdt (s\<lparr>phaseModels := map hook (phaseModels s)\<rparr>) = dpdt s"
  by (simp add: correctKinematics_def correctKinematics_loop_eq)

text \<open>The three phases of the example do not ask for the update.\<close>

theorem correctKinematics_no_request_witness:
  "correctKinematics exampleKinematics exampleDdt threePhases =
     Inr (threePhases\<lparr>phaseModels := map exampleKinematics (phaseModels threePhases)\<rparr>,
          [CorrectKinematics ''water'', CorrectKinematics ''oil'', CorrectKinematics ''air'']) \<and>
   dpdt (threePhases\<lparr>phaseModels := map exampleKinematics (phaseModels threePhases)\<rparr>) = [0, 0]"
proof -
  have a: "\<forall>p\<in>set (phaseModels threePhases). \<not> thermo_dpdt (phase_thermo (exampleKinematics p))"
    by (simp add: threePhases_def exampleSystem_def exampleKinematics_def examplePhase_def)
  have b: "map (\<lambda>p. CorrectKinematics (phase_name p)) (phaseModels threePhases)
      = [CorrectKinematics ''water'', CorrectKinematics ''oil'', CorrectKinematics ''air'']"
    "dpdt threePhases = [0, 0]"
    by (simp_all add: threePhases_def exampleSystem_def examplePhase_def uniformField_def
        numeral_2_eq_2)
  from correctKinematics_no_request [of threePhases exampleKinematics exampleDdt] a b
  show ?thesis by simp
qed

section \<open>correctContinuityError\<close>

text \<open>
  Claim C6. For every moving phase, in order, and for no other phase,
  \<^verbatim>\<open>correctContinuityError\<close> builds a source that starts as the field 0, gets the source of
  \<^verbatim>\<open>fvOptions\<close> added if that applies to the name of the phase's density field, gets the
  mass-transfer rate at the phase's index added if that slot of the list is set and
  nothing added if it is not, and calls the phase's own \<^verbatim>\<open>correctContinuityError\<close> with
  that source. A stationary phase is left as it is. (The indices of the moving phases are
  within the list, as they are for the list that \<^verbatim>\<open>dmdts()\<close> returns.)
\<close>

theorem correctContinuityError_sources:
  "let src = (\<lambda>p.
         let source1 = (if appliesToField opts (thermo_rhoName (phase_thermo p))
                        then fadd (replicate (mesh_nCells s) 0)
                               (optionSource opts (phase_alpha p) (thermo_rho (phase_thermo p)))
                        else replicate (mesh_nCells s) 0)
         in case dmdtsList ! phase_index p of None \<Rightarrow> source1 | Some d \<Rightarrow> fadd source1 d)
   in (\<forall>p\<in>set (movingPhaseModels s). phase_index p < length dmdtsList) \<longrightarrow>
      correctContinuityError hook opts dmdtsList s =
        Inr (s\<lparr>phaseModels :=
                 map (\<lambda>p. if phase_stationary p then p else hook (src p) p) (phaseModels s)\<rparr>,
             map (\<lambda>p. CorrectContinuityError (phase_name p) (src p)) (movingPhaseModels s))"
proof -
  define src where "src = (\<lambda>p::phaseModel.
         let source1 = (if appliesToField opts (thermo_rhoName (phase_thermo p))
                        then fadd (replicate (mesh_nCells s) 0)
                               (optionSource opts (phase_alpha p) (thermo_rho (phase_thermo p)))
                        else replicate (mesh_nCells s) 0)
         in case dmdtsList ! phase_index p of None \<Rightarrow> source1 | Some d \<Rightarrow> fadd source1 d)"
  have "correctContinuityError hook opts dmdtsList s =
        Inr (s\<lparr>phaseModels :=
                 map (\<lambda>p. if phase_stationary p then p else hook (src p) p) (phaseModels s)\<rparr>,
             map (\<lambda>p. CorrectContinuityError (phase_name p) (src p)) (movingPhaseModels s))"
    if h: "\<forall>p\<in>set (movingPhaseModels s). phase_index p < length dmdtsList"
  proof -
    have "\<forall>p\<in>set (movingPhaseModels s). massSource opts dmdtsList (mesh_nCells s) p = Inr (src p)"
      using h by (simp add: massSource_in_range src_def)
    from correctContinuityError_loop_eq [OF this, of hook] show ?thesis
      by (simp add: correctContinuityError_def)
        (simp add: movingPhaseModels_def writeMoving_map)
  qed
  then show ?thesis
    unfolding Let_def src_def Let_def by blast
qed

text \<open>
  One moving and one stationary phase, with a list in which both slots are set and with
  the list of \<^verbatim>\<open>dmdts()\<close>, in which none is.
\<close>

theorem correctContinuityError_witness:
  "correctContinuityError exampleContinuity exampleOptions [Some [5, 5], Some [7, 7]]
       (movingAndStationary 2) =
     Inr ((movingAndStationary 2)\<lparr>phaseModels :=
             [exampleContinuity [5.6, 5.6] (examplePhase ''water'' 0 2 0.6 1000 False),
              examplePhase ''solid'' 1 2 0.4 2500 True]\<rparr>,
          [CorrectContinuityError ''water'' [5.6, 5.6]]) \<and>
   correctContinuityError exampleContinuity exampleOptions (dmdts (movingAndStationary 2))
       (movingAndStationary 2) =
     Inr ((movingAndStationary 2)\<lparr>phaseModels :=
             [exampleContinuity [0.6, 0.6] (examplePhase ''water'' 0 2 0.6 1000 False),
              examplePhase ''solid'' 1 2 0.4 2500 True]\<rparr>,
          [CorrectContinuityError ''water'' [0.6, 0.6]])"
proof -
  let ?s = "movingAndStationary 2"
  have m: "movingPhaseModels ?s = [examplePhase ''water'' 0 2 0.6 1000 False]"
    "phaseModels ?s = [examplePhase ''water'' 0 2 0.6 1000 False, examplePhase ''solid'' 1 2 0.4 2500 True]"
    "mesh_nCells ?s = 2"
    by (simp_all add: movingAndStationary_def exampleSystem_def examplePhase_def movingPhaseModels_def)
  have d: "dmdts ?s = [None, None]"
    by (simp add: dmdts_def m)
  have h1: "\<forall>p\<in>set (movingPhaseModels ?s). phase_index p < length [Some [5, 5], Some [7 :: real, 7]]"
    and h2: "\<forall>p\<in>set (movingPhaseModels ?s). phase_index p < length (dmdts ?s)"
    by (simp_all add: m d) (simp_all add: examplePhase_def)
  from correctContinuityError_sources
    [where opts = exampleOptions and s = ?s and dmdtsList = "[Some [5, 5], Some [7, 7]]"
       and hook = exampleContinuity, unfolded Let_def, THEN mp, OF h1]
  have 1: "correctContinuityError exampleContinuity exampleOptions [Some [5, 5], Some [7, 7]] ?s =
     Inr (?s\<lparr>phaseModels :=
             [exampleContinuity [5.6, 5.6] (examplePhase ''water'' 0 2 0.6 1000 False),
              examplePhase ''solid'' 1 2 0.4 2500 True]\<rparr>,
          [CorrectContinuityError ''water'' [5.6, 5.6]])"
    by (simp add: movingAndStationary_def exampleSystem_def examplePhase_def movingPhaseModels_def
        exampleOptions_def exampleContinuity_def uniformField_def dmdts_def fadd_def fmul_def
        numeral_2_eq_2)
  from correctContinuityError_sources
    [where opts = exampleOptions and s = ?s and dmdtsList = "dmdts ?s"
       and hook = exampleContinuity, unfolded Let_def, THEN mp, OF h2]
  have 2: "correctContinuityError exampleContinuity exampleOptions (dmdts ?s) ?s =
     Inr (?s\<lparr>phaseModels :=
             [exampleContinuity [0.6, 0.6] (examplePhase ''water'' 0 2 0.6 1000 False),
              examplePhase ''solid'' 1 2 0.4 2500 True]\<rparr>,
          [CorrectContinuityError ''water'' [0.6, 0.6]])"
    by (simp add: movingAndStationary_def exampleSystem_def examplePhase_def movingPhaseModels_def
        exampleOptions_def exampleContinuity_def uniformField_def dmdts_def fadd_def fmul_def
        numeral_2_eq_2)
  from 1 2 show ?thesis by simp
qed

section \<open>Where the mixture density and velocity are defined\<close>

text \<open>
  Claim C7. \<^verbatim>\<open>rho()\<close> and \<^verbatim>\<open>U()\<close> read the moving phases at index 0 and, when there are
  stationary phases, divide by the sum of the moving phases' fractions, with no check.
  They return a field exactly when the list of moving phases is not empty and, if there
  is a stationary phase, that sum is nowhere zero. With no moving phase the read at
  index 0 is out of range; with a stationary phase and a zero of the sum the division is
  by zero. On fields that live on the mesh the sum has no zero exactly when the moving
  fractions add up to a nonzero value at every location.
\<close>

theorem rho_U_defined_iff:
  "((\<exists>w. rho s = Inr w) \<longleftrightarrow>
      movingPhaseModels s \<noteq> [] \<and>
      (stationaryPhaseModels s \<noteq> [] \<longrightarrow>
         0 \<notin> set (sumAlphaMoving (hd (movingPhaseModels s)) (tl (movingPhaseModels s))))) \<and>
   ((\<exists>w. U s = Inr w) \<longleftrightarrow>
      movingPhaseModels s \<noteq> [] \<and>
      (stationaryPhaseModels s \<noteq> [] \<longrightarrow>
         0 \<notin> set (sumAlphaMoving (hd (movingPhaseModels s)) (tl (movingPhaseModels s))))) \<and>
   (movingPhaseModels s = [] \<longrightarrow> rho s = Inl IndexOutOfRange \<and> U s = Inl IndexOutOfRange) \<and>
   (movingPhaseModels s \<noteq> [] \<and> stationaryPhaseModels s \<noteq> [] \<and>
    0 \<in> set (sumAlphaMoving (hd (movingPhaseModels s)) (tl (movingPhaseModels s)))
      \<longrightarrow> rho s = Inl DivideByZero \<and> U s = Inl DivideByZero) \<and>
   (movingPhaseModels s \<noteq> [] \<and> fieldsOn (mesh_nCells s) (phaseModels s) \<longrightarrow>
      (0 \<notin> set (sumAlphaMoving (hd (movingPhaseModels s)) (tl (movingPhaseModels s)))
         \<longleftrightarrow> (\<forall>c<mesh_nCells s. (\<Sum>p\<leftarrow>movingPhaseModels s. phase_alpha p ! c) \<noteq> 0)))"
proof -
  have "movingPhaseModels s \<noteq> [] \<and> fieldsOn (mesh_nCells s) (phaseModels s) \<longrightarrow>
      (0 \<notin> set (sumAlphaMoving (hd (movingPhaseModels s)) (tl (movingPhaseModels s)))
         \<longleftrightarrow> (\<forall>c<mesh_nCells s. (\<Sum>p\<leftarrow>movingPhaseModels s. phase_alpha p ! c) \<noteq> 0))"
  proof
    assume h: "movingPhaseModels s \<noteq> [] \<and> fieldsOn (mesh_nCells s) (phaseModels s)"
    let ?n = "mesh_nCells s" and ?m = "movingPhaseModels s"
    have "fieldsOn ?n (hd ?m # tl ?m)"
      using h fieldsOn_filter [of ?n "phaseModels s" "\<lambda>p. \<not> phase_stationary p"]
      by (simp add: movingPhaseModels_def)
    from sumAlphaMoving_pointwise [OF this] h have den:
      "length (sumAlphaMoving (hd ?m) (tl ?m)) = ?n"
      "\<forall>c<?n. sumAlphaMoving (hd ?m) (tl ?m) ! c = (\<Sum>p\<leftarrow>?m. phase_alpha p ! c)"
      by simp_all
    show "0 \<notin> set (sumAlphaMoving (hd ?m) (tl ?m))
          \<longleftrightarrow> (\<forall>c<?n. (\<Sum>p\<leftarrow>?m. phase_alpha p ! c) \<noteq> 0)"
      using den by (metis in_set_conv_nth)
  qed
  then show ?thesis
    by (cases "movingPhaseModels s") (auto simp: rho_def U_def fdiv_def fvdiv_def)
qed

text \<open>
  A system of one stationary phase; one whose only moving phase has fraction 0 at a
  location; and the system of one moving and one stationary phase.
\<close>

theorem rho_U_defined_witness:
  "rho onlyStationary = Inl IndexOutOfRange \<and> U onlyStationary = Inl IndexOutOfRange \<and>
   rho vanishingMoving = Inl DivideByZero \<and> U vanishingMoving = Inl DivideByZero \<and>
   (\<exists>w. rho (movingAndStationary 2) = Inr w) \<and> (\<exists>w. U (movingAndStationary 2) = Inr w) \<and>
   (\<Sum>p\<leftarrow>movingPhaseModels (movingAndStationary 2). phase_alpha p ! 1) \<noteq> 0"
proof -
  have d: "fieldsOn (mesh_nCells (movingAndStationary 2)) (phaseModels (movingAndStationary 2))"
    "1 < mesh_nCells (movingAndStationary 2)"
    by (simp_all add: movingAndStationary_def exampleSystem_def examplePhase_def fieldsOn_def
        phase_rho_def uniformField_def)
  have a: "movingPhaseModels onlyStationary = []"
    by (simp add: onlyStationary_def exampleSystem_def examplePhase_def movingPhaseModels_def)
  have b: "movingPhaseModels vanishingMoving \<noteq> []" "stationaryPhaseModels vanishingMoving \<noteq> []"
    "0 \<in> set (sumAlphaMoving (hd (movingPhaseModels vanishingMoving))
                (tl (movingPhaseModels vanishingMoving)))"
    by (simp_all add: vanishingMoving_def exampleSystem_def examplePhase_def movingPhaseModels_def
        stationaryPhaseModels_def sumAlphaMoving_def)
  have c: "movingPhaseModels (movingAndStationary 2) \<noteq> []"
    "0 \<notin> set (sumAlphaMoving (hd (movingPhaseModels (movingAndStationary 2)))
                (tl (movingPhaseModels (movingAndStationary 2))))"
    by (simp_all add: movingAndStationary_def exampleSystem_def examplePhase_def
        movingPhaseModels_def sumAlphaMoving_def uniformField_def)
  from rho_U_defined_iff [of onlyStationary] rho_U_defined_iff [of vanishingMoving]
    rho_U_defined_iff [of "movingAndStationary 2"] a b c d
  show ?thesis by blast
qed

section \<open>incompressible\<close>

lemma incompressible_loop_all:
  "incompressible_loop ps = (\<forall>p\<in>set ps. phase_incompressible p)"
  by (induction ps) auto

text \<open>
  Claim C8. \<^verbatim>\<open>incompressible()\<close> is true exactly when every phase of the system reports
  incompressible; making any one phase of the list report compressible makes it false.
\<close>

theorem incompressible_iff_every_phase:
  "incompressible s = (\<forall>p\<in>set (phaseModels s). phase_incompressible p) \<and>
   (\<forall>i<length (phaseModels s).
      \<not> incompressible
          (s\<lparr>phaseModels := (phaseModels s)[i := (phaseModels s ! i)\<lparr>phase_incompressible := False\<rparr>]\<rparr>))"
proof
  show "incompressible s = (\<forall>p\<in>set (phaseModels s). phase_incompressible p)"
    by (simp add: incompressible_def incompressible_loop_all)
next
  show "\<forall>i<length (phaseModels s).
      \<not> incompressible
          (s\<lparr>phaseModels := (phaseModels s)[i := (phaseModels s ! i)\<lparr>phase_incompressible := False\<rparr>]\<rparr>)"
  proof (intro allI impI)
    fix i assume i: "i < length (phaseModels s)"
    let ?q = "(phaseModels s ! i)\<lparr>phase_incompressible := False\<rparr>"
    have "?q \<in> set ((phaseModels s)[i := ?q])"
      using i by (simp add: set_update_memI)
    moreover have "\<not> phase_incompressible ?q" by simp
    ultimately have "\<not> (\<forall>p\<in>set ((phaseModels s)[i := ?q]). phase_incompressible p)"
      by blast
    then show "\<not> incompressible (s\<lparr>phaseModels := (phaseModels s)[i := ?q]\<rparr>)"
      by (simp add: incompressible_def incompressible_loop_all)
  qed
qed

text \<open>Three incompressible phases, and the same system with the flag of the second one flipped.\<close>

theorem incompressible_witness:
  "incompressible threePhases \<and>
   \<not> incompressible
       (threePhases\<lparr>phaseModels :=
          (phaseModels threePhases)[1 := (phaseModels threePhases ! 1)\<lparr>phase_incompressible := False\<rparr>]\<rparr>)"
proof -
  have a: "\<forall>p\<in>set (phaseModels threePhases). phase_incompressible p"
    by (simp add: threePhases_def exampleSystem_def examplePhase_def)
  have b: "1 < length (phaseModels threePhases)"
    by (simp add: threePhases_def exampleSystem_def)
  from incompressible_iff_every_phase [of threePhases] a b show ?thesis
    by blast
qed

section \<open>The default mass-transfer accessors\<close>

text \<open>
  Claim C9. For a key that names two phases of the system \<^verbatim>\<open>dmdtf\<close> returns the field that
  is 0 at every location; \<^verbatim>\<open>dmdts\<close> returns a list with one slot per phase in which no slot
  is set, so that \<^verbatim>\<open>set(i)\<close> answers false for every phase index.
\<close>

theorem dmdtf_dmdts_placeholders:
  "(first key \<in> phase_name ` set (phaseModels s) \<and> second key \<in> phase_name ` set (phaseModels s)
      \<longrightarrow> dmdtf s key = Inr (replicate (mesh_nCells s) 0)) \<and>
   length (dmdts s) = length (phaseModels s) \<and>
   (\<forall>i<length (phaseModels s). dmdts s ! i = None \<and> PtrList_set (dmdts s) i = Inr False)"
proof (intro conjI impI)
  assume "first key \<in> phase_name ` set (phaseModels s) \<and> second key \<in> phase_name ` set (phaseModels s)"
  then obtain p1 p2 where "lookupPhase (phaseModels s) (first key) = Inr p1"
    and "lookupPhase (phaseModels s) (second key) = Inr p2"
    using lookupPhase_known by blast
  then show "dmdtf s key = Inr (replicate (mesh_nCells s) 0)"
    by (simp add: dmdtf_def uniformField_def)
next
  show "length (dmdts s) = length (phaseModels s)"
    by (simp add: dmdts_def)
next
  show "\<forall>i<length (phaseModels s). dmdts s ! i = None \<and> PtrList_set (dmdts s) i = Inr False"
    by (simp add: dmdts_def PtrList_set_def)
qed

text \<open>The three-phase system, on a mesh of two locations.\<close>

theorem dmdtf_dmdts_witness:
  "dmdtf threePhases (mkKey ''air'' ''water'' False) = Inr [0, 0] \<and>
   dmdts threePhases = [None, None, None] \<and>
   PtrList_set (dmdts threePhases) 2 = Inr False"
proof -
  have names: "first (mkKey ''air'' ''water'' False) \<in> phase_name ` set (phaseModels threePhases) \<and>
     second (mkKey ''air'' ''water'' False) \<in> phase_name ` set (phaseModels threePhases)"
    by (simp add: threePhases_def exampleSystem_def examplePhase_def mkKey_def)
  have len: "length (phaseModels threePhases) = 3" "mesh_nCells threePhases = 2"
    by (simp_all add: threePhases_def exampleSystem_def)
  have "dmdts threePhases = [None, None, None]"
    by (simp add: dmdts_def len numeral_3_eq_3)
  with dmdtf_dmdts_placeholders [of "mkKey ''air'' ''water'' False" threePhases] names len
  show ?thesis
    by (simp add: numeral_2_eq_2)
qed

end
